theory Spec2Isabelle
  imports Main
begin

section \<open>Host values\<close>

text \<open>
  The script \<^verbatim>\<open>src/js/main.js\<close> is glue around four browser facilities: the DOM
  (attributes and class lists), timers, the intersection observer and the selector
  engine. The page is a state record that every function takes and returns.

  A string is a list of code units in the range 0 to 255. A Number that the script
  computes is a double whose value is an integer, an infinity or NaN: \<open>parseInt\<close>
  yields nothing else and the script only multiplies such values by an integer constant.
  \<open>-0\<close> is not told apart from \<open>0\<close>.
\<close>

type_synonym elem = nat

datatype jsnum = NaN | Num int | PosInf | NegInf

datatype js_error = SyntaxError

text \<open>
  The double nearest to an integer: integers below \<open>2^53\<close> in magnitude are doubles;
  a larger one is rounded at the 53rd bit from its top, ties to the even neighbour, and
  a result of \<open>2^1024\<close> or more, one of more than 1024 bits, is an infinity.
\<close>

function bit_length :: "int \<Rightarrow> nat" where
  "bit_length n = (if n \<le> 0 then 0 else Suc (bit_length (n div 2)))"
  by pat_completeness auto
termination
  by (relation "measure nat") auto

declare bit_length.simps [simp del]

definition round_to_double :: "int \<Rightarrow> int" where
  "round_to_double m =
     (if m < 2 ^ 53 then m
      else
        (let e = bit_length m - 53; q = m div 2 ^ e; r = m mod 2 ^ e
         in (if 2 ^ e < 2 * r \<or> (2 * r = 2 ^ e \<and> odd q) then q + 1 else q) * 2 ^ e))"

definition to_double :: "int \<Rightarrow> jsnum" where
  "to_double n =
     (let m = round_to_double \<bar>n\<bar>
      in if 1024 < bit_length m then (if n < 0 then NegInf else PosInf)
         else Num (if n < 0 then - m else m))"

text \<open>The product of two doubles is the double nearest to the exact product.\<close>

fun js_times :: "jsnum \<Rightarrow> jsnum \<Rightarrow> jsnum" where
  "js_times (Num a) (Num b) = to_double (a * b)"
| "js_times NaN _ = NaN"
| "js_times _ NaN = NaN"
| "js_times PosInf (Num b) = (if b = 0 then NaN else if b < 0 then NegInf else PosInf)"
| "js_times NegInf (Num b) = (if b = 0 then NaN else if b < 0 then PosInf else NegInf)"
| "js_times (Num a) PosInf = (if a = 0 then NaN else if a < 0 then NegInf else PosInf)"
| "js_times (Num a) NegInf = (if a = 0 then NaN else if a < 0 then PosInf else NegInf)"
| "js_times PosInf PosInf = PosInf"
| "js_times PosInf NegInf = NegInf"
| "js_times NegInf PosInf = NegInf"
| "js_times NegInf NegInf = PosInf"

subsection \<open>parseInt\<close>

text \<open>
  \<open>parseInt(string)\<close> with no radix, as ECMAScript defines it: strip leading white
  space, take an optional sign, take a \<open>0x\<close> or \<open>0X\<close> prefix as radix 16 (radix 10
  otherwise), read the longest prefix of digits of that radix, and answer NaN when
  that prefix is empty, the double nearest to the signed value of the digits otherwise.
  (An engine is free to read the digits after the twentieth significant one of a decimal
  numeral as zeros; here every digit counts.)
\<close>

definition is_ws :: "char \<Rightarrow> bool" where
  "is_ws c = (of_char c \<in> {9, 10, 11, 12, 13, 32, 160 :: nat})"

definition digit_val :: "char \<Rightarrow> nat option" where
  "digit_val c =
     (let n = of_char c :: nat
      in if 48 \<le> n \<and> n \<le> 57 then Some (n - 48)
         else if 97 \<le> n \<and> n \<le> 122 then Some (n - 87)
         else if 65 \<le> n \<and> n \<le> 90 then Some (n - 55)
         else None)"

definition is_digit_in :: "nat \<Rightarrow> char \<Rightarrow> bool" where
  "is_digit_in R c = (case digit_val c of Some v \<Rightarrow> v < R | None \<Rightarrow> False)"

definition digits_value :: "nat \<Rightarrow> string \<Rightarrow> int" where
  "digits_value R Z =
     foldl (\<lambda>acc c. acc * int R + (case digit_val c of Some v \<Rightarrow> int v | None \<Rightarrow> 0)) 0 Z"

definition strip_sign :: "string \<Rightarrow> int \<times> string" where
  "strip_sign S =
     (case S of
        [] \<Rightarrow> (1, [])
      | c # r \<Rightarrow> if c = CHR ''-'' then (- 1, r)
                 else if c = CHR ''+'' then (1, r)
                 else (1, S))"

definition strip_prefix :: "string \<Rightarrow> nat \<times> string" where
  "strip_prefix S =
     (if take 2 S = ''0x'' \<or> take 2 S = ''0X'' then (16, drop 2 S) else (10, S))"

definition parseInt :: "string \<Rightarrow> jsnum" where
  "parseInt inputString =
     (let (sign, S) = strip_sign (dropWhile is_ws inputString);
          (R, S') = strip_prefix S;
          Z = takeWhile (is_digit_in R) S'
      in if Z = [] then NaN else to_double (sign * digits_value R Z))"

text \<open>The decimal numeral of a natural number, the encoding of a delay index.\<close>

fun decimal :: "nat \<Rightarrow> string" where
  "decimal n =
     (if n < 10 then [char_of (48 + n)]
      else decimal (n div 10) @ [char_of (48 + n mod 10)])"

declare decimal.simps [simp del]

section \<open>The page\<close>

record node =
  attributes :: "string \<Rightarrow> string option"
  classList :: "string list"

text \<open>
  Both functions handed to \<open>setTimeout\<close> have the body
  \<^verbatim>\<open>element.classList.add('visible')\<close>, closed over their element.
\<close>

datatype callback = AddVisible elem

record timer =
  set_at :: nat
  delay :: jsnum
  callback :: callback

record world =
  nodes :: "elem \<Rightarrow> node"
  document :: "elem list"
  observed :: "elem list"
  listeners :: "elem list"
  timers :: "timer list"
  now :: nat
  scrolls :: "(elem \<times> string \<times> string) list"

text \<open>
  \<open>document\<close> lists the elements in tree order, \<open>observed\<close> is the observation
  target list of \<open>scrollObserver\<close>, \<open>listeners\<close> the links carrying the click
  handler, \<open>timers\<close> the pending timers, \<open>now\<close> the clock in milliseconds, and
  \<open>scrolls\<close> the log of \<open>scrollIntoView\<close> calls with their behavior and block.
\<close>

definition getAttribute :: "world \<Rightarrow> elem \<Rightarrow> string \<Rightarrow> string option" where
  "getAttribute w element name = attributes (nodes w element) name"

definition revealed :: "world \<Rightarrow> elem \<Rightarrow> bool" where
  "revealed w element = (''visible'' \<in> set (classList (nodes w element)))"

text \<open>\<open>classList.add\<close>: the token list is an ordered set, a token already there stays.\<close>

definition classList_add :: "elem \<Rightarrow> string \<Rightarrow> world \<Rightarrow> world" where
  "classList_add element token w =
     (let n = nodes w element
      in if token \<in> set (classList n) then w
         else w\<lparr>nodes := (nodes w)(element := n\<lparr>classList := classList n @ [token]\<rparr>)\<rparr>)"

text \<open>
  \<open>setTimeout\<close> records the request. The host takes the delay as a signed 32-bit
  integer: NaN and the infinities become zero, any other value is reduced modulo
  \<open>2^32\<close> into the range from \<open>-2^31\<close> to \<open>2^31 - 1\<close>, and a negative outcome counts
  as zero. The host runs the callback once, no earlier than that many milliseconds after
  the call.
\<close>

definition setTimeout :: "callback \<Rightarrow> jsnum \<Rightarrow> world \<Rightarrow> world" where
  "setTimeout f d w = w\<lparr>timers := timers w @ [\<lparr>set_at = now w, delay = d, callback = f\<rparr>]\<rparr>"

definition to_int32 :: "int \<Rightarrow> int" where
  "to_int32 n = (n + 2 ^ 31) mod 2 ^ 32 - 2 ^ 31"

fun timeout_ms :: "jsnum \<Rightarrow> nat" where
  "timeout_ms (Num n) = nat (to_int32 n)"
| "timeout_ms NaN = 0"
| "timeout_ms PosInf = 0"
| "timeout_ms NegInf = 0"

definition due :: "timer \<Rightarrow> nat" where
  "due t = set_at t + timeout_ms (delay t)"

fun cb_target :: "callback \<Rightarrow> elem" where
  "cb_target (AddVisible element) = element"

fun run_callback :: "callback \<Rightarrow> world \<Rightarrow> world" where
  "run_callback (AddVisible element) w = classList_add element ''visible'' w"

definition observe :: "elem \<Rightarrow> world \<Rightarrow> world" where
  "observe element w =
     (if element \<in> set (observed w) then w else w\<lparr>observed := observed w @ [element]\<rparr>)"

definition unobserve :: "elem \<Rightarrow> world \<Rightarrow> world" where
  "unobserve element w = w\<lparr>observed := removeAll element (observed w)\<rparr>"

section \<open>Part 1: hero fade-in on page load\<close>

text \<open>
  \<open>heroElements\<close> is the node list of \<^verbatim>\<open>querySelectorAll('.hero .fade-in')\<close>;
  \<open>forEach\<close> passes each element with its index.
\<close>

definition hero_ready :: "elem list \<Rightarrow> world \<Rightarrow> world" where
  "hero_ready heroElements w =
     fold (\<lambda>(index, element). setTimeout (AddVisible element) (js_times (Num (int index)) (Num 200)))
       (enumerate 0 heroElements) w"

section \<open>Part 2: scroll-triggered animations\<close>

text \<open>
  \<open>observerOptions\<close> (the viewport as root, no margin, threshold 0.1) tells the host
  when an element counts as intersecting; the callback sees the outcome as the flag
  \<open>isIntersecting\<close> of an entry. Its \<open>observer\<close> argument is always
  \<open>scrollObserver\<close>, whose target list is the field \<open>observed\<close>.
  \<open>handle_entry\<close> is the function that \<open>forEach\<close> applies to each entry.
\<close>

record entry =
  target :: elem
  isIntersecting :: bool

definition handle_entry :: "entry \<Rightarrow> world \<Rightarrow> world" where
  "handle_entry entry w =
     (if isIntersecting entry then
        (let element = target entry;
             delay = getAttribute w element ''data-delay''
         in unobserve element
              (case delay of
                 Some d \<Rightarrow>
                   (let delayTime = js_times (parseInt d) (Num 300)
                    in setTimeout (AddVisible element) delayTime w)
               | None \<Rightarrow> classList_add element ''visible'' w))
      else w)"

definition handleIntersection :: "entry list \<Rightarrow> world \<Rightarrow> world" where
  "handleIntersection entries w = fold handle_entry entries w"

definition scroll_ready :: "elem list \<Rightarrow> world \<Rightarrow> world" where
  "scroll_ready scrollElements w = fold observe scrollElements w"

section \<open>Part 4: smooth scrolling for nav links\<close>

text \<open>
  \<open>querySelector\<close> is the host's. Of the selector language only one fragment is spelled
  out here: \<open>#\<close> followed by nothing but ASCII letters, digits, \<open>_\<close> and \<open>-\<close>. Such a
  string is an ID selector when the characters after \<open>#\<close> start an identifier (a letter
  or \<open>_\<close>, or \<open>-\<close> followed by a letter, \<open>_\<close> or \<open>-\<close>), and is no selector at all
  otherwise, in which case \<open>querySelector\<close> throws a SyntaxError. Every other string is
  passed to \<open>engine\<close>, the rest of the host's selector engine, which is a parameter.
  An ID selector finds the first element in tree order whose \<open>id\<close> attribute is equal to
  the identifier (a document in no-quirks mode).
\<close>

datatype selector = IdSelector string | Malformed | Other

definition is_name_start :: "char \<Rightarrow> bool" where
  "is_name_start c =
     (let n = of_char c :: nat
      in (97 \<le> n \<and> n \<le> 122) \<or> (65 \<le> n \<and> n \<le> 90) \<or> n = 95)"

definition is_name_char :: "char \<Rightarrow> bool" where
  "is_name_char c =
     (let n = of_char c :: nat
      in is_name_start c \<or> (48 \<le> n \<and> n \<le> 57) \<or> n = 45)"

definition starts_ident :: "string \<Rightarrow> bool" where
  "starts_ident s =
     (case s of
        [] \<Rightarrow> False
      | c # r \<Rightarrow>
          if c = CHR ''-'' then
            (case r of [] \<Rightarrow> False | c' # _ \<Rightarrow> is_name_start c' \<or> c' = CHR ''-'')
          else is_name_start c)"

definition classify :: "string \<Rightarrow> selector" where
  "classify s =
     (case s of
        [] \<Rightarrow> Other
      | c # r \<Rightarrow>
          if c = CHR ''#'' \<and> list_all is_name_char r then
            (if starts_ident r then IdSelector r else Malformed)
          else Other)"

type_synonym engine = "world \<Rightarrow> string \<Rightarrow> js_error + elem option"

definition querySelector :: "engine \<Rightarrow> world \<Rightarrow> string \<Rightarrow> js_error + elem option" where
  "querySelector engine w s =
     (case classify s of
        IdSelector i \<Rightarrow> Inr (find (\<lambda>e. getAttribute w e ''id'' = Some i) (document w))
      | Malformed \<Rightarrow> Inl SyntaxError
      | Other \<Rightarrow> engine w s)"

definition scrollIntoView :: "elem \<Rightarrow> string \<Rightarrow> string \<Rightarrow> world \<Rightarrow> world" where
  "scrollIntoView element behavior block w =
     w\<lparr>scrolls := scrolls w @ [(element, behavior, block)]\<rparr>"

text \<open>
  What one run of the click handler leaves behind: whether \<open>preventDefault\<close> was
  called, the exception that escaped the handler if one did, and the page.
  A \<open>null\<close> handed to \<open>querySelector\<close> is converted to the string \<open>null\<close>.
\<close>

record click_outcome =
  defaultPrevented :: bool
  thrown :: "js_error option"
  page :: world

definition click_handler :: "engine \<Rightarrow> elem \<Rightarrow> world \<Rightarrow> click_outcome" where
  "click_handler engine link w =
     (let targetId = getAttribute w link ''href''
      in case querySelector engine w (case targetId of None \<Rightarrow> ''null'' | Some h \<Rightarrow> h) of
           Inl err \<Rightarrow> \<lparr>defaultPrevented = True, thrown = Some err, page = w\<rparr>
         | Inr None \<Rightarrow> \<lparr>defaultPrevented = True, thrown = None, page = w\<rparr>
         | Inr (Some targetSection) \<Rightarrow>
             \<lparr>defaultPrevented = True, thrown = None,
              page = scrollIntoView targetSection ''smooth'' ''start'' w\<rparr>)"

definition nav_ready :: "elem list \<Rightarrow> world \<Rightarrow> world" where
  "nav_ready navLinks w = fold (\<lambda>link w'. w'\<lparr>listeners := listeners w' @ [link]\<rparr>) navLinks w"

section \<open>The event loop\<close>

text \<open>
  The three \<open>DOMContentLoaded\<close> listeners run once, in the order the script
  registered them, on the node lists the host selected.
\<close>

record selected =
  heroElements :: "elem list"
  scrollElements :: "elem list"
  navLinks :: "elem list"

definition dom_content_loaded :: "selected \<Rightarrow> world \<Rightarrow> world" where
  "dom_content_loaded p w =
     nav_ready (navLinks p) (scroll_ready (scrollElements p) (hero_ready (heroElements p) w))"

text \<open>
  After that the host runs callbacks one at a time: the observer callback on a batch of
  entries whose targets are all under observation, a pending timer whose time has come
  (which leaves the pending list as it runs), the click handler of a link that has one.
  Between callbacks the clock may move forward. An exception that escapes the click
  handler is reported by the host and the page lives on.
\<close>

datatype event = Notify "entry list" | Fire nat | Advance nat | Click elem

definition deliverable :: "world \<Rightarrow> entry list \<Rightarrow> bool" where
  "deliverable w entries = list_all (\<lambda>en. target en \<in> set (observed w)) entries"

definition step :: "engine \<Rightarrow> world \<Rightarrow> event \<Rightarrow> world option" where
  "step engine w ev =
     (case ev of
        Notify entries \<Rightarrow>
          if deliverable w entries
          then Some (handleIntersection entries w) else None
      | Fire i \<Rightarrow>
          if i < length (timers w) \<and> due (timers w ! i) \<le> now w
          then Some (run_callback (callback (timers w ! i))
                       (w\<lparr>timers := take i (timers w) @ drop (Suc i) (timers w)\<rparr>))
          else None
      | Advance dt \<Rightarrow> Some (w\<lparr>now := now w + dt\<rparr>)
      | Click link \<Rightarrow>
          if link \<in> set (listeners w) then Some (page (click_handler engine link w)) else None)"

fun run :: "engine \<Rightarrow> world \<Rightarrow> event list \<Rightarrow> world option" where
  "run engine w [] = Some w"
| "run engine w (ev # evs) =
     (case step engine w ev of None \<Rightarrow> None | Some w' \<Rightarrow> run engine w' evs)"

section \<open>Observations on a run\<close>

text \<open>The pending timers whose callback reveals a given element.\<close>

definition timers_for :: "elem \<Rightarrow> world \<Rightarrow> timer list" where
  "timers_for e w = filter (\<lambda>t. cb_target (callback t) = e) (timers w)"

text \<open>The timers that the observer callback sets while it handles one entry.\<close>

definition new_timers :: "entry \<Rightarrow> world \<Rightarrow> timer list" where
  "new_timers en w =
     (if isIntersecting en then
        (case getAttribute w (target en) ''data-delay'' of
           Some d \<Rightarrow> [\<lparr>set_at = now w, delay = js_times (parseInt d) (Num 300),
                       callback = AddVisible (target en)\<rparr>]
         | None \<Rightarrow> [])
      else [])"

text \<open>
  The qualifying visibility events of an element: the intersecting entries that name it,
  in one batch and in one event of a run.
\<close>

definition qualifying :: "elem \<Rightarrow> entry list \<Rightarrow> nat" where
  "qualifying e es = length (filter (\<lambda>en. target en = e \<and> isIntersecting en) es)"

fun qualifying_in :: "elem \<Rightarrow> event \<Rightarrow> nat" where
  "qualifying_in e (Notify es) = qualifying e es"
| "qualifying_in e (Fire i) = 0"
| "qualifying_in e (Advance dt) = 0"
| "qualifying_in e (Click link) = 0"

text \<open>The steps of a run at which an element passes from unrevealed to revealed.\<close>

fun reveal_steps :: "engine \<Rightarrow> elem \<Rightarrow> world \<Rightarrow> event list \<Rightarrow> nat" where
  "reveal_steps engine e w [] = 0"
| "reveal_steps engine e w (ev # evs) =
     (case step engine w ev of
        None \<Rightarrow> 0
      | Some w' \<Rightarrow>
          (if \<not> revealed w e \<and> revealed w' e then 1 else 0) + reveal_steps engine e w' evs)"

definition revealed_after :: "world option \<Rightarrow> elem \<Rightarrow> bool" where
  "revealed_after r e = (case r of Some w \<Rightarrow> revealed w e | None \<Rightarrow> False)"

definition pending_after :: "world option \<Rightarrow> elem \<Rightarrow> nat" where
  "pending_after r e = (case r of Some w \<Rightarrow> length (timers_for e w) | None \<Rightarrow> 0)"

definition clock_after :: "world option \<Rightarrow> nat option" where
  "clock_after r = (case r of Some w \<Rightarrow> Some (now w) | None \<Rightarrow> None)"

section \<open>A page to run the script on\<close>

text \<open>
  Two hero elements, the second of which is also a scroll-fade element; a section
  \<open>about\<close>; three genre boxes with delay indices 0, 1 and 2; links to \<open>#about\<close>,
  to \<open>#\<close> and to \<open>#2024\<close>; a section whose id is \<open>2024\<close>; and a box whose
  delay attribute is not a number. The selection is what the three queries of the
  script find on this page.
\<close>

definition demo_nodes :: "elem \<Rightarrow> node" where
  "demo_nodes =
     (\<lambda>_. \<lparr>attributes = Map.empty, classList = []\<rparr>)
     (0 := \<lparr>attributes = Map.empty, classList = [''fade-in'']\<rparr>,
      1 := \<lparr>attributes = Map.empty, classList = [''fade-in'', ''scroll-fade'']\<rparr>,
      2 := \<lparr>attributes = [''id'' \<mapsto> ''about''], classList = [''scroll-fade'']\<rparr>,
      3 := \<lparr>attributes = [''data-delay'' \<mapsto> ''0''], classList = [''scroll-fade'']\<rparr>,
      4 := \<lparr>attributes = [''data-delay'' \<mapsto> ''1''], classList = [''scroll-fade'']\<rparr>,
      5 := \<lparr>attributes = [''data-delay'' \<mapsto> ''2''], classList = [''scroll-fade'']\<rparr>,
      6 := \<lparr>attributes = [''href'' \<mapsto> ''#about''], classList = []\<rparr>,
      7 := \<lparr>attributes = [''href'' \<mapsto> ''#''], classList = []\<rparr>,
      8 := \<lparr>attributes = [''href'' \<mapsto> ''#2024''], classList = []\<rparr>,
      9 := \<lparr>attributes = [''id'' \<mapsto> ''2024''], classList = [''scroll-fade'']\<rparr>,
      10 := \<lparr>attributes = [''data-delay'' \<mapsto> ''soon''], classList = [''scroll-fade'']\<rparr>)"

definition demo_world :: world where
  "demo_world =
     \<lparr>nodes = demo_nodes, document = [0, 1, 2, 3, 4, 5, 6, 7, 8, 9, 10], observed = [],
      listeners = [], timers = [], now = 0, scrolls = []\<rparr>"

definition demo_selected :: selected where
  "demo_selected =
     \<lparr>heroElements = [0, 1], scrollElements = [1, 2, 3, 4, 5, 9, 10], navLinks = [6, 7, 8]\<rparr>"

definition demo_loaded :: world where
  "demo_loaded = dom_content_loaded demo_selected demo_world"

text \<open>An engine that finds nothing, for the selectors left to the host.\<close>

definition no_match :: engine where
  "no_match w s = Inr None"

text \<open>One batch in which the second genre box enters, leaves and enters again.\<close>

definition toggling :: "entry list" where
  "toggling =
     [\<lparr>target = 4, isIntersecting = True\<rparr>,
      \<lparr>target = 4, isIntersecting = False\<rparr>,
      \<lparr>target = 4, isIntersecting = True\<rparr>]"

text \<open>Entries for the section, the second genre box and the box with the odd delay.\<close>

definition section_enters :: entry where
  "section_enters = \<lparr>target = 2, isIntersecting = True\<rparr>"

definition section_leaves :: entry where
  "section_leaves = \<lparr>target = 2, isIntersecting = False\<rparr>"

definition box_enters :: entry where
  "box_enters = \<lparr>target = 4, isIntersecting = True\<rparr>"

definition odd_box_enters :: entry where
  "odd_box_enters = \<lparr>target = 10, isIntersecting = True\<rparr>"

text \<open>The page once the section has come into view.\<close>

definition demo_seen :: world where
  "demo_seen = handleIntersection [section_enters] demo_loaded"

text \<open>
  A second page: a hero element that is also a scroll-fade element with delay index 1,
  and a scroll-fade box whose delay index is 7158279, so that its delay of 2147483700
  milliseconds is just beyond the range of the host's timers.
\<close>

definition late_nodes :: "elem \<Rightarrow> node" where
  "late_nodes =
     (\<lambda>_. \<lparr>attributes = Map.empty, classList = []\<rparr>)
     (0 := \<lparr>attributes = [''data-delay'' \<mapsto> ''1''], classList = [''fade-in'', ''scroll-fade'']\<rparr>,
      1 := \<lparr>attributes = [''data-delay'' \<mapsto> ''7158279''], classList = [''scroll-fade'']\<rparr>)"

definition late_world :: world where
  "late_world =
     \<lparr>nodes = late_nodes, document = [0, 1], observed = [], listeners = [], timers = [],
      now = 0, scrolls = []\<rparr>"

definition late_selected :: selected where
  "late_selected = \<lparr>heroElements = [0], scrollElements = [0, 1], navLinks = []\<rparr>"

definition late_loaded :: world where
  "late_loaded = dom_content_loaded late_selected late_world"

definition hero_box_enters :: entry where
  "hero_box_enters = \<lparr>target = 0, isIntersecting = True\<rparr>"

definition far_box_enters :: entry where
  "far_box_enters = \<lparr>target = 1, isIntersecting = True\<rparr>"

section \<open>Doubles, timer delays and decimal numerals\<close>

lemma round_to_double_exact: "m < 2 ^ 53 \<Longrightarrow> round_to_double m = m"
  by (simp add: round_to_double_def)

lemma bit_length_le: "m < 2 ^ k \<Longrightarrow> bit_length m \<le> k"
proof (induction k arbitrary: m)
  case 0
  then show ?case by (simp add: bit_length.simps)
next
  case (Suc k)
  show ?case
  proof (cases "m \<le> 0")
    case True
    then show ?thesis by (simp add: bit_length.simps)
  next
    case False
    from Suc.prems have "m div 2 < 2 ^ k" by simp
    then have "bit_length (m div 2) \<le> k" by (rule Suc.IH)
    with False show ?thesis by (subst bit_length.simps) simp
  qed
qed

lemma to_double_exact: "\<bar>n\<bar> < 2 ^ 53 \<Longrightarrow> to_double n = Num n"
proof -
  assume a: "\<bar>n\<bar> < 2 ^ 53"
  then have r: "round_to_double \<bar>n\<bar> = \<bar>n\<bar>" by (rule round_to_double_exact)
  have "bit_length \<bar>n\<bar> \<le> 53" using a by (rule bit_length_le)
  then have b: "\<not> 1024 < bit_length \<bar>n\<bar>" by simp
  show ?thesis by (simp add: to_double_def r b Let_def)
qed

lemma rounding_examples:
  "js_times (Num 200000000000001) (Num 300) = Num 60000000000000304"
  "to_double (2 ^ 53 + 1) = Num (2 ^ 53)"
  "to_double (2 ^ 1024) = PosInf"
  by code_simp+

lemma wrapping_examples:
  "to_int32 2147483647 = 2147483647"
  "to_int32 2147483700 = - 2147483596"
  "timeout_ms (js_times (parseInt ''7158279'') (Num 300)) = 0"
  by code_simp+

lemma to_int32_small: "0 \<le> n \<Longrightarrow> n \<le> 2147483647 \<Longrightarrow> to_int32 n = n"
  by (simp add: to_int32_def)

lemma timeout_ms_small: "n \<le> 2147483647 \<Longrightarrow> timeout_ms (Num (int n)) = n"
  by (simp add: to_int32_small)

lemma js_times_small:
  "n * k \<le> 2147483647 \<Longrightarrow> js_times (Num (int n)) (Num (int k)) = Num (int (n * k))"
proof -
  assume "n * k \<le> 2147483647"
  then have "\<bar>int n * int k\<bar> < 2 ^ 53"
    by (simp add: abs_mult flip: of_nat_mult)
  then show ?thesis by (simp add: to_double_exact)
qed


lemma digit_val_digit: "(n::nat) < 10 \<Longrightarrow> digit_val (char_of (48 + n)) = Some n"
  by (simp add: digit_val_def Let_def)

lemma is_digit_in_10: "(n::nat) < 10 \<Longrightarrow> is_digit_in 10 (char_of (48 + n))"
  by (simp add: is_digit_in_def digit_val_digit)

lemma decimal_digits: "list_all (is_digit_in 10) (decimal n)"
  by (induction n rule: decimal.induct) (subst decimal.simps, simp add: is_digit_in_10)

lemma digits_value_snoc:
  "digits_value R (Z @ [c]) =
     digits_value R Z * int R + (case digit_val c of Some v \<Rightarrow> int v | None \<Rightarrow> 0)"
  by (simp add: digits_value_def)

lemma digits_value_decimal: "digits_value 10 (decimal n) = int n"
proof (induction n rule: decimal.induct)
  case (1 n)
  show ?case
  proof (cases "n < 10")
    case True
    then show ?thesis
      by (subst decimal.simps) (simp add: digits_value_def digit_val_digit)
  next
    case False
    have "int (n div 10) * 10 + int (n mod 10) = int (n div 10 * 10 + n mod 10)"
      by (simp only: of_nat_add of_nat_mult of_nat_numeral)
    then have "int (n div 10) * 10 + int (n mod 10) = int n" by simp
    with 1 False show ?thesis
      by (subst decimal.simps) (simp add: digits_value_snoc digit_val_digit)
  qed
qed

lemma decimal_not_Nil: "decimal n \<noteq> []"
  by (subst decimal.simps) simp

lemma digit_range: "is_digit_in 10 c \<Longrightarrow> 48 \<le> (of_char c :: nat) \<and> (of_char c :: nat) \<le> 57"
  unfolding is_digit_in_def digit_val_def Let_def
  by (simp split: if_splits)

lemma digit_not_ws: "is_digit_in 10 c \<Longrightarrow> \<not> is_ws c"
  using digit_range [of c] by (auto simp: is_ws_def)

lemma digit_not_sign: "is_digit_in 10 c \<Longrightarrow> c \<noteq> CHR ''-'' \<and> c \<noteq> CHR ''+''"
  using digit_range [of c] by auto

lemma digit_not_x: "is_digit_in 10 c \<Longrightarrow> c \<noteq> CHR ''x'' \<and> c \<noteq> CHR ''X''"
  using digit_range [of c] by auto

lemma strip_prefix_digits: "list_all (is_digit_in 10) S \<Longrightarrow> strip_prefix S = (10, S)"
proof (cases S)
  case Nil
  then show ?thesis by (simp add: strip_prefix_def)
next
  case (Cons a S1)
  assume d: "list_all (is_digit_in 10) S"
  show ?thesis
  proof (cases S1)
    case Nil
    with Cons show ?thesis by (simp add: strip_prefix_def)
  next
    case (Cons b S2)
    with d \<open>S = a # S1\<close> have "is_digit_in 10 b" by simp
    then have "b \<noteq> CHR ''x'' \<and> b \<noteq> CHR ''X''" by (rule digit_not_x)
    with Cons \<open>S = a # S1\<close> show ?thesis by (simp add: strip_prefix_def)
  qed
qed

lemma parseInt_digits:
  assumes "list_all (is_digit_in 10) S" and "S \<noteq> []"
  shows "parseInt S = to_double (digits_value 10 S)"
proof -
  from assms obtain c r where S: "S = c # r" by (cases S) auto
  with assms have c: "is_digit_in 10 c" by simp
  have 1: "dropWhile is_ws S = S" using c S digit_not_ws by simp
  have 2: "strip_sign S = (1, S)" using c S digit_not_sign by (simp add: strip_sign_def)
  have 3: "strip_prefix S = (10, S)" using assms(1) by (rule strip_prefix_digits)
  have 4: "takeWhile (is_digit_in 10) S = S" using assms(1) by (simp add: list_all_iff)
  show ?thesis using assms(2) by (simp add: parseInt_def 1 2 3 4)
qed

lemma parseInt_decimal: "parseInt (decimal d) = to_double (int d)"
  using parseInt_digits [OF decimal_digits decimal_not_Nil, of d]
  by (simp add: digits_value_decimal)

section \<open>What each operation touches\<close>

lemma classList_add_fields [simp]:
  "timers (classList_add e t w) = timers w"
  "observed (classList_add e t w) = observed w"
  "listeners (classList_add e t w) = listeners w"
  "document (classList_add e t w) = document w"
  "now (classList_add e t w) = now w"
  "scrolls (classList_add e t w) = scrolls w"
  by (simp_all add: classList_add_def Let_def)

lemma classList_add_attributes [simp]:
  "getAttribute (classList_add e t w) x a = getAttribute w x a"
  by (simp add: classList_add_def getAttribute_def Let_def)

lemma classList_add_revealed [simp]:
  "revealed (classList_add e ''visible'' w) x = (x = e \<or> revealed w x)"
  by (auto simp: classList_add_def revealed_def Let_def)

lemma setTimeout_fields [simp]:
  "nodes (setTimeout f d w) = nodes w"
  "observed (setTimeout f d w) = observed w"
  "listeners (setTimeout f d w) = listeners w"
  "document (setTimeout f d w) = document w"
  "now (setTimeout f d w) = now w"
  "scrolls (setTimeout f d w) = scrolls w"
  "timers (setTimeout f d w) = timers w @ [\<lparr>set_at = now w, delay = d, callback = f\<rparr>]"
  by (simp_all add: setTimeout_def)

lemma setTimeout_node_facts [simp]:
  "getAttribute (setTimeout f d w) x a = getAttribute w x a"
  "revealed (setTimeout f d w) x = revealed w x"
  by (simp_all add: getAttribute_def revealed_def)

lemma unobserve_fields [simp]:
  "nodes (unobserve e w) = nodes w"
  "timers (unobserve e w) = timers w"
  "listeners (unobserve e w) = listeners w"
  "document (unobserve e w) = document w"
  "now (unobserve e w) = now w"
  "scrolls (unobserve e w) = scrolls w"
  "observed (unobserve e w) = removeAll e (observed w)"
  by (simp_all add: unobserve_def)

lemma unobserve_node_facts [simp]:
  "getAttribute (unobserve e w) x a = getAttribute w x a"
  "revealed (unobserve e w) x = revealed w x"
  by (simp_all add: getAttribute_def revealed_def)

lemma observe_fields [simp]:
  "nodes (observe e w) = nodes w"
  "timers (observe e w) = timers w"
  "now (observe e w) = now w"
  by (simp_all add: observe_def)

lemma run_callback_fields [simp]:
  "timers (run_callback f w) = timers w"
  "observed (run_callback f w) = observed w"
  "listeners (run_callback f w) = listeners w"
  "now (run_callback f w) = now w"
  "getAttribute (run_callback f w) x a = getAttribute w x a"
  by (cases f; simp)+

lemma run_callback_revealed [simp]:
  "revealed (run_callback f w) x = (x = cb_target f \<or> revealed w x)"
  by (cases f) simp

lemma timers_update_facts [simp]:
  "getAttribute (w\<lparr>timers := ts\<rparr>) x a = getAttribute w x a"
  "revealed (w\<lparr>timers := ts\<rparr>) x = revealed w x"
  "getAttribute (w\<lparr>now := n\<rparr>) x a = getAttribute w x a"
  "revealed (w\<lparr>now := n\<rparr>) x = revealed w x"
  by (simp_all add: getAttribute_def revealed_def)

lemma timers_for_append [simp]: "timers_for e (w\<lparr>timers := ts\<rparr>) = filter (\<lambda>t. cb_target (callback t) = e) ts"
  by (simp add: timers_for_def)

subsection \<open>The observer callback\<close>

lemma handle_entry_outside: "\<not> isIntersecting en \<Longrightarrow> handle_entry en w = w"
  by (simp add: handle_entry_def)

lemma handleIntersection_filter:
  "handleIntersection es w = handleIntersection (filter isIntersecting es) w"
  unfolding handleIntersection_def
  by (induction es arbitrary: w) (simp_all add: handle_entry_outside)

lemma handle_entry_fields [simp]:
  "listeners (handle_entry en w) = listeners w"
  "document (handle_entry en w) = document w"
  "now (handle_entry en w) = now w"
  "scrolls (handle_entry en w) = scrolls w"
  "getAttribute (handle_entry en w) x a = getAttribute w x a"
  by (simp_all add: handle_entry_def Let_def split: option.split)

lemma handle_entry_timers: "timers (handle_entry en w) = timers w @ new_timers en w"
  by (simp add: handle_entry_def new_timers_def Let_def split: option.split)

lemma handle_entry_observed:
  "observed (handle_entry en w) =
     (if isIntersecting en then removeAll (target en) (observed w) else observed w)"
  by (simp add: handle_entry_def Let_def split: option.split)

lemma handle_entry_revealed:
  "revealed (handle_entry en w) x =
     (revealed w x \<or>
      (isIntersecting en \<and> target en = x \<and> getAttribute w x ''data-delay'' = None))"
  by (auto simp: handle_entry_def Let_def split: option.split)

lemma new_timers_handle_entry [simp]: "new_timers en (handle_entry en' w) = new_timers en w"
  by (simp add: new_timers_def split: option.split)

lemma new_timers_target: "t \<in> set (new_timers en w) \<Longrightarrow> cb_target (callback t) = target en \<and> isIntersecting en \<and> getAttribute w (target en) ''data-delay'' \<noteq> None"
  unfolding new_timers_def
  by (cases "isIntersecting en"; cases "getAttribute w (target en) ''data-delay''") auto

lemma new_timers_delay:
  assumes "t \<in> set (new_timers en w)" and "getAttribute w (target en) ''data-delay'' = Some s"
  shows "t = \<lparr>set_at = now w, delay = js_times (parseInt s) (Num 300), callback = AddVisible (target en)\<rparr>"
  using assms unfolding new_timers_def by (cases "isIntersecting en") simp_all

lemma handleIntersection_Nil [simp]: "handleIntersection [] w = w"
  by (simp add: handleIntersection_def)

lemma handleIntersection_Cons [simp]:
  "handleIntersection (en # es) w = handleIntersection es (handle_entry en w)"
  by (simp add: handleIntersection_def)

lemma handleIntersection_fields [simp]:
  "listeners (handleIntersection es w) = listeners w"
  "document (handleIntersection es w) = document w"
  "now (handleIntersection es w) = now w"
  "scrolls (handleIntersection es w) = scrolls w"
  "getAttribute (handleIntersection es w) x a = getAttribute w x a"
  by (induction es arbitrary: w; simp)+

lemma handleIntersection_timers:
  "timers (handleIntersection es w) = timers w @ concat (map (\<lambda>en. new_timers en w) es)"
  by (induction es arbitrary: w) (simp_all add: handle_entry_timers)

lemma handleIntersection_revealed:
  "revealed (handleIntersection es w) x =
     (revealed w x \<or>
      (\<exists>en \<in> set es. isIntersecting en \<and> target en = x \<and> getAttribute w x ''data-delay'' = None))"
  by (induction es arbitrary: w) (auto simp: handle_entry_revealed)

lemma handleIntersection_observed:
  "set (observed (handleIntersection es w)) =
     set (observed w) - {target en |en. en \<in> set es \<and> isIntersecting en}"
  by (induction es arbitrary: w) (auto simp: handle_entry_observed)

subsection \<open>The page-ready handlers\<close>

lemma stagger_fold:
  "timers (fold (\<lambda>(index, element). setTimeout (AddVisible element) (to_double (int index * 200)))
             (enumerate k hs) w) =
   timers w @ map (\<lambda>(index, element). \<lparr>set_at = now w, delay = to_double (int index * 200),
                                         callback = AddVisible element\<rparr>) (enumerate k hs)"
proof (induction hs arbitrary: k w)
  case Nil
  show ?case by simp
next
  case (Cons h hs)
  show ?case by (simp add: Cons.IH)
qed

lemma stagger_fold_nodes:
  "nodes (fold (\<lambda>(index, element). setTimeout (AddVisible element) (to_double (int index * 200))) xs w) = nodes w
   \<and> now (fold (\<lambda>(index, element). setTimeout (AddVisible element) (to_double (int index * 200))) xs w) = now w
   \<and> observed (fold (\<lambda>(index, element). setTimeout (AddVisible element) (to_double (int index * 200))) xs w) = observed w"
  by (induction xs arbitrary: w) (auto)

lemma hero_ready_timers:
  "timers (hero_ready hs w) =
   timers w @ map (\<lambda>(index, element). \<lparr>set_at = now w, delay = to_double (int index * 200),
                                         callback = AddVisible element\<rparr>) (enumerate 0 hs)"
  by (simp add: hero_ready_def stagger_fold)

lemma hero_ready_fields [simp]:
  "nodes (hero_ready hs w) = nodes w"
  "now (hero_ready hs w) = now w"
  "observed (hero_ready hs w) = observed w"
  by (simp_all add: hero_ready_def stagger_fold_nodes)

lemma scroll_ready_fields [simp]:
  "nodes (scroll_ready xs w) = nodes w"
  "timers (scroll_ready xs w) = timers w"
  "now (scroll_ready xs w) = now w"
  unfolding scroll_ready_def by (induction xs arbitrary: w; simp)+

lemma nav_ready_fields [simp]:
  "nodes (nav_ready xs w) = nodes w"
  "timers (nav_ready xs w) = timers w"
  "now (nav_ready xs w) = now w"
  "observed (nav_ready xs w) = observed w"
  unfolding nav_ready_def by (induction xs arbitrary: w; simp)+

lemma dom_content_loaded_fields [simp]:
  "nodes (dom_content_loaded p w) = nodes w"
  "now (dom_content_loaded p w) = now w"
  "timers (dom_content_loaded p w) = timers (hero_ready (heroElements p) w)"
  by (simp_all add: dom_content_loaded_def)

lemma dom_content_loaded_revealed [simp]: "revealed (dom_content_loaded p w) e = revealed w e"
  by (simp add: revealed_def)

lemma timers_for_loaded:
  "e \<notin> set (heroElements p) \<Longrightarrow> timers_for e (dom_content_loaded p w) = timers_for e w"
  by (auto simp: timers_for_def hero_ready_timers filter_empty_conv in_set_enumerate_eq)

subsection \<open>The click handler\<close>

lemma click_handler_fields [simp]:
  "nodes (page (click_handler engine l w)) = nodes w"
  "timers (page (click_handler engine l w)) = timers w"
  "observed (page (click_handler engine l w)) = observed w"
  "listeners (page (click_handler engine l w)) = listeners w"
  "document (page (click_handler engine l w)) = document w"
  "now (page (click_handler engine l w)) = now w"
  "defaultPrevented (click_handler engine l w)"
  by (simp_all add: click_handler_def scrollIntoView_def Let_def split: sum.split option.split)

lemma click_handler_node_facts [simp]:
  "getAttribute (page (click_handler engine l w)) x a = getAttribute w x a"
  "revealed (page (click_handler engine l w)) x = revealed w x"
  by (simp_all add: getAttribute_def revealed_def)

lemma click_handler_id:
  assumes "getAttribute w link ''href'' = Some (CHR ''#'' # i)"
    and "list_all is_name_char i" and "starts_ident i"
  shows "click_handler engine link w =
           (case find (\<lambda>e. getAttribute w e ''id'' = Some i) (document w) of
              None \<Rightarrow> \<lparr>defaultPrevented = True, thrown = None, page = w\<rparr>
            | Some targetSection \<Rightarrow>
                \<lparr>defaultPrevented = True, thrown = None,
                 page = scrollIntoView targetSection ''smooth'' ''start'' w\<rparr>)"
  using assms by (simp add: click_handler_def querySelector_def classify_def)

section \<open>Steps and runs\<close>

lemma step_Notify:
  "step engine w (Notify es) = Some w' \<longleftrightarrow> deliverable w es \<and> w' = handleIntersection es w"
  by (auto simp: step_def)

lemma step_Fire:
  "step engine w (Fire i) = Some w' \<longleftrightarrow>
     i < length (timers w) \<and> due (timers w ! i) \<le> now w \<and>
     w' = run_callback (callback (timers w ! i))
            (w\<lparr>timers := take i (timers w) @ drop (Suc i) (timers w)\<rparr>)"
  by (auto simp: step_def)

lemma step_Advance: "step engine w (Advance dt) = Some w' \<longleftrightarrow> w' = w\<lparr>now := now w + dt\<rparr>"
  by (auto simp: step_def)

lemma step_Click:
  "step engine w (Click l) = Some w' \<longleftrightarrow>
     l \<in> set (listeners w) \<and> w' = page (click_handler engine l w)"
  by (auto simp: step_def)

lemmas step_cases = step_Notify step_Fire step_Advance step_Click

lemma step_now: "step engine w ev = Some w' \<Longrightarrow> now w \<le> now w'"
  by (cases ev) (auto simp: step_cases)

lemma step_getAttribute: "step engine w ev = Some w' \<Longrightarrow> getAttribute w' x a = getAttribute w x a"
  by (cases ev) (auto simp: step_cases)

lemma step_revealed_mono: "step engine w ev = Some w' \<Longrightarrow> revealed w x \<Longrightarrow> revealed w' x"
  by (cases ev) (auto simp: step_cases handleIntersection_revealed)

lemma step_observed: "step engine w ev = Some w' \<Longrightarrow> set (observed w') \<subseteq> set (observed w)"
  by (cases ev) (auto simp: step_cases handleIntersection_observed)

lemma run_revealed_mono: "run engine w evs = Some w' \<Longrightarrow> revealed w x \<Longrightarrow> revealed w' x"
  by (induction evs arbitrary: w) (auto split: option.splits dest: step_revealed_mono)

lemma run_observed: "run engine w evs = Some w' \<Longrightarrow> set (observed w') \<subseteq> set (observed w)"
proof (induction evs arbitrary: w)
  case Nil
  then show ?case by simp
next
  case (Cons ev evs)
  then obtain w1 where 1: "step engine w ev = Some w1" and 2: "run engine w1 evs = Some w'"
    by (auto split: option.splits)
  from Cons.IH [OF 2] step_observed [OF 1] show ?case by blast
qed

lemma fire_last:
  assumes "timers w1 = ts @ [t]" and "cb_target (callback t) = e"
  shows "revealed_after (step engine (w1\<lparr>now := n\<rparr>) (Fire (length ts))) e \<longleftrightarrow> due t \<le> n"
  using assms by (simp add: revealed_after_def step_def)


lemma fire_last_pending:
  assumes "timers w1 = ts @ [t]" and "due t \<le> n"
  shows "pending_after (step engine (w1\<lparr>now := n\<rparr>) (Fire (length ts))) e =
           length (filter (\<lambda>t. cb_target (callback t) = e) ts)"
  using assms by (simp add: pending_after_def step_def timers_for_def)

subsection \<open>A reveal is for good\<close>

lemma reveal_steps_revealed: "revealed w e \<Longrightarrow> reveal_steps engine e w evs = 0"
proof (induction evs arbitrary: w)
  case Nil
  show ?case by simp
next
  case (Cons ev evs)
  show ?case
  proof (cases "step engine w ev")
    case None
    then show ?thesis by simp
  next
    case (Some w1)
    then have "revealed w1 e" using Cons.prems by (rule step_revealed_mono)
    then show ?thesis using Some Cons.prems Cons.IH by simp
  qed
qed

lemma reveal_steps_once: "reveal_steps engine e w evs \<le> 1"
proof (induction evs arbitrary: w)
  case Nil
  show ?case by simp
next
  case (Cons ev evs)
  show ?case
  proof (cases "step engine w ev")
    case None
    then show ?thesis by simp
  next
    case (Some w1)
    show ?thesis
    proof (cases "revealed w1 e")
      case True
      then show ?thesis using Some by (simp add: reveal_steps_revealed)
    next
      case False
      then show ?thesis using Some Cons.IH [of w1] by simp
    qed
  qed
qed

subsection \<open>A delayed reveal is not early\<close>

lemma late_reveal_step:
  assumes st: "step engine w ev = Some w'"
    and attr: "getAttribute w e ''data-delay'' = Some s"
    and k: "timeout_ms (js_times (parseInt s) (Num 300)) = k"
    and T: "T \<le> now w + k"
    and rev: "revealed w e \<longrightarrow> T \<le> now w"
    and tm: "\<forall>t \<in> set (timers w). cb_target (callback t) = e \<longrightarrow> T \<le> due t"
  shows "T \<le> now w' + k \<and> (revealed w' e \<longrightarrow> T \<le> now w') \<and>
         (\<forall>t \<in> set (timers w'). cb_target (callback t) = e \<longrightarrow> T \<le> due t)"
proof (cases ev)
  case (Notify es)
  with st have w': "w' = handleIntersection es w" by (simp add: step_Notify)
  have "T \<le> due t" if "t \<in> set (new_timers en w)" "cb_target (callback t) = e" for t en
  proof -
    from that have "target en = e" by (auto dest: new_timers_target)
    with that attr have "t = \<lparr>set_at = now w, delay = js_times (parseInt s) (Num 300), callback = AddVisible e\<rparr>"
      using new_timers_delay [of t en w s] by simp
    with k T show ?thesis by (simp add: due_def)
  qed
  with tm have "\<forall>t \<in> set (timers w'). cb_target (callback t) = e \<longrightarrow> T \<le> due t"
    by (auto simp: w' handleIntersection_timers)
  moreover have "revealed w' e = revealed w e"
    using attr by (simp add: w' handleIntersection_revealed)
  ultimately show ?thesis using T rev by (simp add: w')
next
  case (Fire i)
  with st have i: "i < length (timers w)" and d: "due (timers w ! i) \<le> now w"
    and w': "w' = run_callback (callback (timers w ! i))
                   (w\<lparr>timers := take i (timers w) @ drop (Suc i) (timers w)\<rparr>)"
    by (simp_all add: step_Fire)
  have "T \<le> now w" if "cb_target (callback (timers w ! i)) = e"
  proof -
    from i have "timers w ! i \<in> set (timers w)" by simp
    with tm that have "T \<le> due (timers w ! i)" by blast
    with d show ?thesis by simp
  qed
  moreover have "\<forall>t \<in> set (timers w'). cb_target (callback t) = e \<longrightarrow> T \<le> due t"
    using tm by (auto simp: w' dest: in_set_takeD in_set_dropD)
  ultimately show ?thesis using T rev by (auto simp: w')
next
  case (Advance dt)
  with st have "w' = w\<lparr>now := now w + dt\<rparr>" by (simp add: step_Advance)
  then show ?thesis using T rev tm by auto
next
  case (Click l)
  with st have "w' = page (click_handler engine l w)" by (simp add: step_Click)
  then show ?thesis using T rev tm by simp
qed

lemma late_reveal_run:
  assumes "run engine w evs = Some w'"
    and "getAttribute w e ''data-delay'' = Some s"
    and "timeout_ms (js_times (parseInt s) (Num 300)) = k"
    and "T \<le> now w + k"
    and "revealed w e \<longrightarrow> T \<le> now w"
    and "\<forall>t \<in> set (timers w). cb_target (callback t) = e \<longrightarrow> T \<le> due t"
  shows "revealed w' e \<longrightarrow> T \<le> now w'"
  using assms
proof (induction evs arbitrary: w)
  case Nil
  then show ?case by simp
next
  case (Cons ev evs)
  from Cons.prems(1) obtain w1 where 1: "step engine w ev = Some w1" and 2: "run engine w1 evs = Some w'"
    by (auto split: option.splits)
  have a: "getAttribute w1 e ''data-delay'' = Some s"
    using step_getAttribute [OF 1] Cons.prems(2) by simp
  from late_reveal_step [OF 1 Cons.prems(2-6)]
  show ?case using Cons.IH [OF 2 a Cons.prems(3)] by blast
qed

subsection \<open>An element out of observation is left alone\<close>

lemma deliverable_unobserved: "deliverable w es \<Longrightarrow> e \<notin> set (observed w) \<Longrightarrow> qualifying e es = 0"
  by (auto simp: deliverable_def qualifying_def list_all_iff filter_empty_conv)

lemma step_unobserved: "step engine w ev = Some w' \<Longrightarrow> e \<notin> set (observed w) \<Longrightarrow> qualifying_in e ev = 0"
  by (cases ev) (auto simp: step_Notify deliverable_unobserved)

lemma run_unobserved:
  "run engine w evs = Some w' \<Longrightarrow> e \<notin> set (observed w) \<Longrightarrow> list_all (\<lambda>ev. qualifying_in e ev = 0) evs"
proof (induction evs arbitrary: w)
  case Nil
  show ?case by simp
next
  case (Cons ev evs)
  from Cons.prems(1) obtain w1 where 1: "step engine w ev = Some w1" and 2: "run engine w1 evs = Some w'"
    by (auto split: option.splits)
  have "e \<notin> set (observed w1)" using step_observed [OF 1] Cons.prems(2) by blast
  with Cons.IH [OF 2] step_unobserved [OF 1 Cons.prems(2)] show ?case by simp
qed

lemma step_qualifying_unobserves:
  "step engine w ev = Some w' \<Longrightarrow> 0 < qualifying_in e ev \<Longrightarrow> e \<notin> set (observed w')"
proof (cases ev)
  case (Notify es)
  assume "step engine w ev = Some w'" and "0 < qualifying_in e ev"
  with Notify have w': "w' = handleIntersection es w" and q: "0 < qualifying e es"
    by (simp_all add: step_Notify)
  from q obtain en where "en \<in> set es" "target en = e" "isIntersecting en"
    by (auto simp: qualifying_def filter_empty_conv)
  then show ?thesis by (auto simp: w' handleIntersection_observed)
qed simp_all

lemma sum_list_zero: "list_all (\<lambda>x. f x = (0::nat)) xs \<Longrightarrow> sum_list (map f xs) = 0"
  by (induction xs) simp_all

lemma filter_pos_zero: "list_all (\<lambda>x. f x = (0::nat)) xs \<Longrightarrow> filter (\<lambda>x. 0 < f x) xs = []"
  by (induction xs) simp_all

lemma timers_for_step:
  "step engine w ev = Some w' \<Longrightarrow>
     length (timers_for e w') \<le> length (timers_for e w) + qualifying_in e ev"
proof (cases ev)
  case (Notify es)
  assume "step engine w ev = Some w'"
  with Notify have w': "w' = handleIntersection es w" by (simp add: step_Notify)
  have "length (filter (\<lambda>t. cb_target (callback t) = e) (concat (map (\<lambda>en. new_timers en w) es)))
          \<le> qualifying e es"
  proof (induction es)
    case Nil
    show ?case by (simp add: qualifying_def)
  next
    case (Cons en es)
    have "length (filter (\<lambda>t. cb_target (callback t) = e) (new_timers en w))
            \<le> (if target en = e \<and> isIntersecting en then 1 else 0)"
      unfolding new_timers_def
      by (cases "isIntersecting en"; cases "getAttribute w (target en) ''data-delay''") simp_all
    with Cons show ?case by (auto simp: qualifying_def split: if_splits)
  qed
  then show ?thesis using Notify by (simp add: w' timers_for_def handleIntersection_timers)
next
  case (Fire i)
  assume "step engine w ev = Some w'"
  with Fire have i: "i < length (timers w)"
    and w': "w' = run_callback (callback (timers w ! i))
                   (w\<lparr>timers := take i (timers w) @ drop (Suc i) (timers w)\<rparr>)"
    by (simp_all add: step_Fire)
  let ?P = "\<lambda>t. cb_target (callback t) = e"
  have "timers w = take i (timers w) @ timers w ! i # drop (Suc i) (timers w)"
    using i by (simp add: id_take_nth_drop)
  then have "filter ?P (timers w) = filter ?P (take i (timers w)) @ filter ?P [timers w ! i] @ filter ?P (drop (Suc i) (timers w))"
    by (metis append_Cons append_Nil filter_append)
  then have "length (filter ?P (take i (timers w) @ drop (Suc i) (timers w))) \<le> length (filter ?P (timers w))"
    by simp
  then show ?thesis using Fire by (simp add: w' timers_for_def)
next
  case (Advance dt)
  assume "step engine w ev = Some w'"
  with Advance show ?thesis by (auto simp: step_Advance timers_for_def)
next
  case (Click l)
  assume "step engine w ev = Some w'"
  with Click show ?thesis by (auto simp: step_Click timers_for_def)
qed

lemma once_run:
  assumes "run engine w evs = Some w'"
  shows "length (filter (\<lambda>ev. 0 < qualifying_in e ev) evs) \<le> 1 \<and>
         (list_all (\<lambda>ev. qualifying_in e ev \<le> 1) evs \<longrightarrow> sum_list (map (qualifying_in e) evs) \<le> 1) \<and>
         (\<not> list_all (\<lambda>ev. qualifying_in e ev = 0) evs \<longrightarrow> e \<notin> set (observed w')) \<and>
         length (timers_for e w') \<le> length (timers_for e w) + sum_list (map (qualifying_in e) evs)"
  using assms
proof (induction evs arbitrary: w)
  case Nil
  then show ?case by simp
next
  case (Cons ev evs)
  from Cons.prems obtain w1 where 1: "step engine w ev = Some w1" and 2: "run engine w1 evs = Some w'"
    by (auto split: option.splits)
  note IH = Cons.IH [OF 2]
  note tm = timers_for_step [OF 1, of e]
  show ?case
  proof (cases "0 < qualifying_in e ev")
    case True
    then have u: "e \<notin> set (observed w1)" using 1 by (rule step_qualifying_unobserves [rotated])
    then have z: "list_all (\<lambda>ev. qualifying_in e ev = 0) evs" using 2 by (rule run_unobserved [rotated])
    have "e \<notin> set (observed w')" using run_observed [OF 2] u by blast
    then show ?thesis using True z IH tm by (simp add: sum_list_zero filter_pos_zero)
  next
    case False
    then show ?thesis using IH tm by simp
  qed
qed

subsection \<open>An element that is never seen\<close>

lemma quiet_step:
  assumes "step engine w ev = Some w'" and "qualifying_in e ev = 0"
    and "\<not> revealed w e" and "timers_for e w = []"
  shows "\<not> revealed w' e \<and> timers_for e w' = []"
proof (cases ev)
  case (Notify es)
  with assms have w': "w' = handleIntersection es w" and q: "qualifying e es = 0"
    by (simp_all add: step_Notify)
  from q have no: "\<forall>en \<in> set es. \<not> (target en = e \<and> isIntersecting en)"
    by (simp add: qualifying_def filter_empty_conv)
  then have "\<not> revealed w' e" using assms(3) by (auto simp: w' handleIntersection_revealed)
  moreover have "filter (\<lambda>t. cb_target (callback t) = e) (concat (map (\<lambda>en. new_timers en w) es)) = []"
    using no by (auto simp: filter_empty_conv dest: new_timers_target)
  then have "timers_for e w' = []" using assms(4) by (simp add: w' timers_for_def handleIntersection_timers)
  ultimately show ?thesis by simp
next
  case (Fire i)
  with assms have i: "i < length (timers w)"
    and w': "w' = run_callback (callback (timers w ! i))
                   (w\<lparr>timers := take i (timers w) @ drop (Suc i) (timers w)\<rparr>)"
    by (simp_all add: step_Fire)
  from assms(4) have all: "\<forall>t \<in> set (timers w). cb_target (callback t) \<noteq> e"
    by (simp add: timers_for_def filter_empty_conv)
  with i have "cb_target (callback (timers w ! i)) \<noteq> e" by simp
  moreover have "timers_for e w' = []"
    using all by (auto simp: w' timers_for_def filter_empty_conv dest: in_set_takeD in_set_dropD)
  ultimately show ?thesis using assms(3) by (auto simp: w')
next
  case (Advance dt)
  with assms show ?thesis by (auto simp: step_Advance timers_for_def)
next
  case (Click l)
  with assms show ?thesis by (auto simp: step_Click timers_for_def)
qed

lemma quiet_run:
  assumes "run engine w evs = Some w'" and "list_all (\<lambda>ev. qualifying_in e ev = 0) evs"
    and "\<not> revealed w e" and "timers_for e w = []"
  shows "\<not> revealed w' e \<and> timers_for e w' = []"
  using assms
proof (induction evs arbitrary: w)
  case Nil
  then show ?case by simp
next
  case (Cons ev evs)
  from Cons.prems(1) obtain w1 where 1: "step engine w ev = Some w1" and 2: "run engine w1 evs = Some w'"
    by (auto split: option.splits)
  from Cons.prems(2) have q: "qualifying_in e ev = 0" and qs: "list_all (\<lambda>ev. qualifying_in e ev = 0) evs"
    by simp_all
  from quiet_step [OF 1 q Cons.prems(3,4)] Cons.IH [OF 2 qs] show ?case by simp
qed

section \<open>Load-time stagger\<close>



section \<open>Scroll-triggered reveal\<close>

text \<open>
  C8: an entry that is not intersecting changes nothing, and a batch does exactly what
  it would do with its non-intersecting entries taken out.
\<close>

theorem outside_viewport_no_action:
  "(\<not> isIntersecting en \<longrightarrow> handle_entry en w = w) \<and>
   handleIntersection es w = handleIntersection (filter isIntersecting es) w"
  using handleIntersection_filter [of es w] by (simp add: handle_entry_outside)

theorem outside_viewport_no_action_witness:
  "\<not> isIntersecting section_leaves \<and> handle_entry section_leaves demo_loaded = demo_loaded \<and>
   handleIntersection [section_leaves, section_enters] demo_loaded =
     handleIntersection [section_enters] demo_loaded"
proof -
  have h: "\<not> isIntersecting section_leaves" by (simp add: section_leaves_def)
  have f: "filter isIntersecting [section_leaves, section_enters] = [section_enters]"
    by (simp add: section_leaves_def section_enters_def)
  from outside_viewport_no_action [of section_leaves demo_loaded "[section_leaves, section_enters]"]
  show ?thesis using h f by simp
qed

text \<open>
  C3: a watched element without a \<open>data-delay\<close> attribute is revealed while its first
  intersecting entry is handled. That entry sets no timer and the clock does not move;
  at the end of the batch the element is revealed and the batch has added no timer
  for it.
\<close>

theorem immediate_reveal:
  assumes "isIntersecting en" and "getAttribute w (target en) ''data-delay'' = None"
  shows "revealed (handle_entry en w) (target en) \<and>
         timers (handle_entry en w) = timers w \<and>
         now (handle_entry en w) = now w \<and>
         (en \<in> set es \<longrightarrow>
            revealed (handleIntersection es w) (target en) \<and>
            timers_for (target en) (handleIntersection es w) = timers_for (target en) w)"
proof -
  have 1: "revealed (handle_entry en w) (target en)"
    using assms by (simp add: handle_entry_revealed)
  have 2: "timers (handle_entry en w) = timers w"
    using assms by (simp add: handle_entry_timers new_timers_def)
  have 3: "revealed (handleIntersection es w) (target en)" if "en \<in> set es"
    using that assms by (auto simp: handleIntersection_revealed)
  have "filter (\<lambda>t. cb_target (callback t) = target en) (concat (map (\<lambda>en'. new_timers en' w) es)) = []"
    using assms(2) by (auto simp: filter_empty_conv dest: new_timers_target)
  then have 4: "timers_for (target en) (handleIntersection es w) = timers_for (target en) w"
    by (simp add: timers_for_def handleIntersection_timers)
  from 1 2 3 4 show ?thesis by simp
qed

theorem immediate_reveal_witness:
  "isIntersecting section_enters \<and>
   getAttribute demo_loaded (target section_enters) ''data-delay'' = None \<and>
   section_enters \<in> set [section_leaves, section_enters] \<and>
   revealed (handle_entry section_enters demo_loaded) (target section_enters) \<and>
   timers (handle_entry section_enters demo_loaded) = timers demo_loaded \<and>
   revealed (handleIntersection [section_leaves, section_enters] demo_loaded) (target section_enters)"
proof -
  have h1: "isIntersecting section_enters" by (simp add: section_enters_def)
  have h2: "getAttribute demo_loaded (target section_enters) ''data-delay'' = None"
    by (simp add: section_enters_def demo_loaded_def getAttribute_def demo_world_def demo_nodes_def)
  have h3: "section_enters \<in> set [section_leaves, section_enters]" by simp
  from immediate_reveal [OF h1 h2, of "[section_leaves, section_enters]"]
  show ?thesis using h1 h2 h3 by simp
qed

text \<open>
  C1, as amended: let the \<open>data-delay\<close> attribute of an element be the decimal numeral
  of \<open>d\<close>, with \<open>d * 300\<close> within the range of the host's timers, at most
  2147483647. When an intersecting entry of the element is handled, exactly one timer is
  set, of \<open>d * 300\<close> milliseconds from that moment, with the callback that reveals the
  element, and the element is not revealed by the handling itself. The timer is ready
  to run from \<open>d * 300\<close> milliseconds on and not before, and it is gone once it has
  run. If the element was unrevealed with no timer pending for it, then in every run
  that follows it is revealed no earlier than \<open>d * 300\<close> milliseconds after the event.
\<close>

theorem delayed_reveal:
  assumes "isIntersecting en"
    and "getAttribute w (target en) ''data-delay'' = Some (decimal d)"
    and "d * 300 \<le> 2147483647"
  shows "timers (handle_entry en w) =
           timers w @ [\<lparr>set_at = now w, delay = Num (int d * 300), callback = AddVisible (target en)\<rparr>] \<and>
         revealed (handle_entry en w) (target en) = revealed w (target en) \<and>
         (revealed_after
            (step engine ((handle_entry en w)\<lparr>now := now w + dt\<rparr>) (Fire (length (timers w))))
            (target en) \<longleftrightarrow> d * 300 \<le> dt) \<and>
         pending_after
           (step engine ((handle_entry en w)\<lparr>now := now w + d * 300\<rparr>) (Fire (length (timers w))))
           (target en) = length (timers_for (target en) w) \<and>
         (\<not> revealed w (target en) \<and> timers_for (target en) w = [] \<and>
          run engine (handle_entry en w) evs = Some w' \<and> revealed w' (target en)
          \<longrightarrow> now w + d * 300 \<le> now w')"
proof -
  let ?e = "target en"
  let ?t = "\<lparr>set_at = now w, delay = Num (int d * 300), callback = AddVisible ?e\<rparr>"
  let ?w1 = "handle_entry en w"
  have "\<bar>int d\<bar> < 2 ^ 53" using assms(3) by simp
  then have pd: "parseInt (decimal d) = Num (int d)"
    by (simp add: parseInt_decimal to_double_exact)
  have jt: "js_times (Num (int d)) (Num 300) = Num (int d * 300)"
    using js_times_small [of d 300] assms(3) by simp
  have tk: "timeout_ms (Num (int d * 300)) = d * 300"
    using timeout_ms_small [of "d * 300"] assms(3) by simp
  have tm: "timers ?w1 = timers w @ [?t]"
    using assms(1,2) jt by (simp add: handle_entry_timers new_timers_def pd)
  have rv: "revealed ?w1 ?e = revealed w ?e"
    using assms(1,2) by (simp add: handle_entry_revealed)
  have du: "due ?t = now w + d * 300"
    using tk by (simp add: due_def)
  have fire: "revealed_after (step engine (?w1\<lparr>now := now w + dt\<rparr>) (Fire (length (timers w)))) ?e
                \<longleftrightarrow> d * 300 \<le> dt"
    using fire_last [OF tm, of ?e engine "now w + dt"] du by simp
  have gone: "pending_after (step engine (?w1\<lparr>now := now w + d * 300\<rparr>) (Fire (length (timers w)))) ?e
                = length (timers_for ?e w)"
    using fire_last_pending [OF tm, of "now w + d * 300" engine ?e] du by (simp add: timers_for_def)
  have late: "now w + d * 300 \<le> now w'"
    if nr: "\<not> revealed w ?e" and nt: "timers_for ?e w = []"
      and rn: "run engine ?w1 evs = Some w'" and r': "revealed w' ?e"
  proof -
    have a: "getAttribute ?w1 ?e ''data-delay'' = Some (decimal d)"
      using assms(2) by simp
    have k: "timeout_ms (js_times (parseInt (decimal d)) (Num 300)) = d * 300"
      using tk jt by (simp add: pd)
    have T: "now w + d * 300 \<le> now ?w1 + d * 300" by simp
    have r: "revealed ?w1 ?e \<longrightarrow> now w + d * 300 \<le> now ?w1" using rv nr by simp
    have "\<forall>t \<in> set (timers w). cb_target (callback t) \<noteq> ?e"
      using nt by (simp add: timers_for_def filter_empty_conv)
    then have t: "\<forall>t \<in> set (timers ?w1). cb_target (callback t) = ?e \<longrightarrow> now w + d * 300 \<le> due t"
      using tm du by auto
    from late_reveal_run [OF rn a k T r t] r' show ?thesis by simp
  qed
  from tm rv fire gone late show ?thesis by blast
qed

theorem delayed_reveal_witness:
  "isIntersecting box_enters \<and>
   getAttribute demo_loaded (target box_enters) ''data-delay'' = Some (decimal 1) \<and>
   (1::nat) * 300 \<le> 2147483647 \<and>
   \<not> revealed demo_loaded (target box_enters) \<and>
   timers_for (target box_enters) demo_loaded = [] \<and>
   timers (handle_entry box_enters demo_loaded) =
     timers demo_loaded @ [\<lparr>set_at = 0, delay = Num 300, callback = AddVisible 4\<rparr>] \<and>
   (\<exists>w'. run no_match (handle_entry box_enters demo_loaded) [Advance 300, Fire 2] = Some w' \<and>
         revealed w' (target box_enters) \<and> now demo_loaded + 1 * 300 \<le> now w')"
proof -
  have h1: "isIntersecting box_enters" by (simp add: box_enters_def)
  have h2: "getAttribute demo_loaded (target box_enters) ''data-delay'' = Some (decimal 1)"
    by code_simp
  have b: "(1::nat) * 300 \<le> 2147483647" by simp
  have h3: "\<not> revealed demo_loaded (target box_enters)" by code_simp
  have h4: "timers_for (target box_enters) demo_loaded = []" by code_simp
  have "revealed_after (run no_match (handle_entry box_enters demo_loaded) [Advance 300, Fire 2])
          (target box_enters)"
    by code_simp
  then obtain w' where r: "run no_match (handle_entry box_enters demo_loaded) [Advance 300, Fire 2] = Some w'"
    and v: "revealed w' (target box_enters)"
    by (auto simp: revealed_after_def split: option.splits)
  have z: "now demo_loaded = 0" "target box_enters = 4"
    by (simp_all add: demo_loaded_def demo_world_def box_enters_def)
  from delayed_reveal [OF h1 h2 b, of no_match 0 "[Advance 300, Fire 2]" w']
  have "timers (handle_entry box_enters demo_loaded) =
          timers demo_loaded @ [\<lparr>set_at = 0, delay = Num 300, callback = AddVisible 4\<rparr>]"
    and "now demo_loaded + 1 * 300 \<le> now w'"
    using h3 h4 r v z by simp_all
  with h1 h2 b h3 h4 r v show ?thesis by blast
qed

text \<open>
  Against C1 as stated, on the second page. The box with delay index 7158279 is
  unrevealed with no timer pending; its entry is handled at time 0, the delay of
  2147483700 milliseconds wraps to a negative 32-bit value, and the timer runs and
  reveals the box at time 0. The hero element with delay index 1 has its entry handled
  at time 0 and is revealed at time 0 by its stagger timer, 300 milliseconds early.
\<close>

theorem early_reveals:
  "decimal 7158279 = ''7158279'' \<and> decimal 1 = ''1'' \<and>
   getAttribute late_loaded 1 ''data-delay'' = Some ''7158279'' \<and>
   \<not> revealed late_loaded 1 \<and> timers_for 1 late_loaded = [] \<and>
   revealed_after (run no_match late_loaded [Notify [far_box_enters], Fire 1]) 1 \<and>
   clock_after (run no_match late_loaded [Notify [far_box_enters], Fire 1]) = Some 0 \<and>
   getAttribute late_loaded 0 ''data-delay'' = Some ''1'' \<and>
   \<not> revealed late_loaded 0 \<and>
   revealed_after (run no_match late_loaded [Notify [hero_box_enters], Fire 0]) 0 \<and>
   clock_after (run no_match late_loaded [Notify [hero_box_enters], Fire 0]) = Some 0"
proof -
  have c: "char_of (49::nat) = CHR ''1''" "char_of (50::nat) = CHR ''2''"
    "char_of (53::nat) = CHR ''5''" "char_of (55::nat) = CHR ''7''"
    "char_of (56::nat) = CHR ''8''" "char_of (57::nat) = CHR ''9''"
    by code_simp+
  have "decimal 7158279 = ''7158279''" "decimal 1 = ''1''"
    by (simp_all add: decimal.simps c)
  moreover have
    "getAttribute late_loaded 1 ''data-delay'' = Some ''7158279'' \<and>
     \<not> revealed late_loaded 1 \<and> timers_for 1 late_loaded = [] \<and>
     revealed_after (run no_match late_loaded [Notify [far_box_enters], Fire 1]) 1 \<and>
     clock_after (run no_match late_loaded [Notify [far_box_enters], Fire 1]) = Some 0"
    by code_simp
  moreover have
    "getAttribute late_loaded 0 ''data-delay'' = Some ''1'' \<and>
     \<not> revealed late_loaded 0 \<and>
     revealed_after (run no_match late_loaded [Notify [hero_box_enters], Fire 0]) 0 \<and>
     clock_after (run no_match late_loaded [Notify [hero_box_enters], Fire 0]) = Some 0"
    by code_simp
  ultimately show ?thesis by simp
qed

text \<open>
  C10: when the \<open>data-delay\<close> attribute of an element does not parse, so that
  \<open>parseInt\<close> answers NaN, handling its intersecting entry still sets one timer; the
  requested delay is NaN, which the host counts as zero, so the timer is ready at once
  and running it reveals the element.
\<close>

theorem unparsable_delay:
  assumes "isIntersecting en"
    and "getAttribute w (target en) ''data-delay'' = Some s"
    and "parseInt s = NaN"
  shows "timers (handle_entry en w) =
           timers w @ [\<lparr>set_at = now w, delay = NaN, callback = AddVisible (target en)\<rparr>] \<and>
         due \<lparr>set_at = now w, delay = NaN, callback = AddVisible (target en)\<rparr> = now w \<and>
         revealed_after (step engine (handle_entry en w) (Fire (length (timers w)))) (target en)"
proof -
  let ?t = "\<lparr>set_at = now w, delay = NaN, callback = AddVisible (target en)\<rparr>"
  have tm: "timers (handle_entry en w) = timers w @ [?t]"
    using assms by (simp add: handle_entry_timers new_timers_def)
  have du: "due ?t = now w" by (simp add: due_def)
  have "revealed_after (step engine ((handle_entry en w)\<lparr>now := now w\<rparr>) (Fire (length (timers w)))) (target en)"
    using fire_last [OF tm, of "target en" engine "now w"] du by simp
  moreover have "(handle_entry en w)\<lparr>now := now w\<rparr> = handle_entry en w"
    using handle_entry_fields(3) [of en w] by (metis world.surjective world.update_convs(6))
  ultimately show ?thesis using tm du by simp
qed

theorem unparsable_delay_witness:
  "isIntersecting odd_box_enters \<and>
   getAttribute demo_loaded (target odd_box_enters) ''data-delay'' = Some ''soon'' \<and>
   parseInt ''soon'' = NaN \<and>
   revealed_after
     (step no_match (handle_entry odd_box_enters demo_loaded) (Fire (length (timers demo_loaded))))
     (target odd_box_enters)"
proof -
  have h1: "isIntersecting odd_box_enters" by (simp add: odd_box_enters_def)
  have h2: "getAttribute demo_loaded (target odd_box_enters) ''data-delay'' = Some ''soon''"
    by code_simp
  have h3: "parseInt ''soon'' = NaN" by code_simp
  from unparsable_delay [OF h1 h2 h3, of no_match]
  show ?thesis using h1 h2 h3 by simp
qed

text \<open>
  C2, as amended: handling an intersecting entry takes its target out of observation
  before the callback returns, so in a run the qualifying events of one element all lie
  in at most one batch, and once such a batch has been handled the element is out of
  observation. Every intersecting entry of that batch is handled: at most one is handled
  for the element when no batch names it in more than one intersecting entry. The
  pending timers for the element grow by at most the number of its qualifying events.
\<close>

theorem observed_once:
  assumes "run engine w evs = Some w'"
  shows "(isIntersecting en \<longrightarrow> target en \<notin> set (observed (handle_entry en w0))) \<and>
         length (filter (\<lambda>ev. 0 < qualifying_in e ev) evs) \<le> 1 \<and>
         (list_all (\<lambda>ev. qualifying_in e ev \<le> 1) evs \<longrightarrow> sum_list (map (qualifying_in e) evs) \<le> 1) \<and>
         (\<not> list_all (\<lambda>ev. qualifying_in e ev = 0) evs \<longrightarrow> e \<notin> set (observed w')) \<and>
         length (timers_for e w') \<le> length (timers_for e w) + sum_list (map (qualifying_in e) evs)"
  using once_run [OF assms, of e] by (simp add: handle_entry_observed)

theorem observed_once_witness:
  "isIntersecting box_enters \<and>
   list_all (\<lambda>ev. qualifying_in 4 ev \<le> 1) [Notify [box_enters], Advance 300, Fire 2] \<and>
   \<not> list_all (\<lambda>ev. qualifying_in 4 ev = 0) [Notify [box_enters], Advance 300, Fire 2] \<and>
   target box_enters \<notin> set (observed (handle_entry box_enters demo_loaded)) \<and>
   sum_list (map (qualifying_in 4) [Notify [box_enters], Advance 300, Fire 2]) \<le> 1 \<and>
   (\<exists>w'. run no_match demo_loaded [Notify [box_enters], Advance 300, Fire 2] = Some w' \<and>
         4 \<notin> set (observed w'))"
proof -
  let ?evs = "[Notify [box_enters], Advance 300, Fire 2]"
  have h1: "isIntersecting box_enters" by (simp add: box_enters_def)
  have h2: "list_all (\<lambda>ev. qualifying_in 4 ev \<le> 1) ?evs" by code_simp
  have h3: "\<not> list_all (\<lambda>ev. qualifying_in 4 ev = 0) ?evs" by code_simp
  have "run no_match demo_loaded ?evs \<noteq> None" by code_simp
  then obtain w' where r: "run no_match demo_loaded ?evs = Some w'" by auto
  from observed_once [OF r, of box_enters demo_loaded 4]
  have "target box_enters \<notin> set (observed (handle_entry box_enters demo_loaded))"
    and "sum_list (map (qualifying_in 4) ?evs) \<le> 1"
    and "4 \<notin> set (observed w')"
    using h1 h2 h3 by blast+
  with h1 h2 h3 r show ?thesis by blast
qed

text \<open>
  Against C2 as stated: the toggling batch is one the host may deliver after page-ready
  (its target is under observation); it holds two qualifying events for the second genre
  box, both are handled, and two timers for the box are pending afterwards.
\<close>

theorem toggling_sets_two_timers:
  "deliverable demo_loaded toggling \<and>
   qualifying_in 4 (Notify toggling) = 2 \<and>
   pending_after (run no_match demo_loaded [Notify toggling]) 4 = 2"
  by code_simp

text \<open>
  C7, as amended: an element that is not among the hero elements, and that at page-ready
  is unrevealed with no timer pending for it, stays unrevealed, with no timer pending
  for it, through every run in which it has no qualifying visibility event.
\<close>

theorem never_seen_never_revealed:
  assumes "e \<notin> set (heroElements p)"
    and "\<not> revealed w e" and "timers_for e w = []"
    and "run engine (dom_content_loaded p w) evs = Some w'"
    and "list_all (\<lambda>ev. qualifying_in e ev = 0) evs"
  shows "\<not> revealed w' e \<and> timers_for e w' = []"
proof -
  have "\<not> revealed (dom_content_loaded p w) e" using assms(2) by simp
  moreover have "timers_for e (dom_content_loaded p w) = []"
    using assms(1,3) by (simp add: timers_for_loaded)
  ultimately show ?thesis using quiet_run [OF assms(4,5)] by simp
qed

theorem never_seen_never_revealed_witness:
  "2 \<notin> set (heroElements demo_selected) \<and> \<not> revealed demo_world 2 \<and>
   timers_for 2 demo_world = [] \<and>
   list_all (\<lambda>ev. qualifying_in 2 ev = 0) [Notify [section_leaves], Advance 200, Fire 1] \<and>
   (\<exists>w'. run no_match (dom_content_loaded demo_selected demo_world)
           [Notify [section_leaves], Advance 200, Fire 1] = Some w' \<and>
         \<not> revealed w' 2 \<and> timers_for 2 w' = [])"
proof -
  let ?evs = "[Notify [section_leaves], Advance 200, Fire 1]"
  have h1: "2 \<notin> set (heroElements demo_selected)" by (simp add: demo_selected_def)
  have h2: "\<not> revealed demo_world 2" by code_simp
  have h3: "timers_for 2 demo_world = []" by code_simp
  have h5: "list_all (\<lambda>ev. qualifying_in 2 ev = 0) ?evs" by code_simp
  have "run no_match (dom_content_loaded demo_selected demo_world) ?evs \<noteq> None" by code_simp
  then obtain w' where r: "run no_match (dom_content_loaded demo_selected demo_world) ?evs = Some w'"
    by auto
  from never_seen_never_revealed [OF h1 h2 h3 r h5]
  show ?thesis using h1 h2 h3 h5 r by blast
qed

text \<open>
  Against C7 as stated: the second hero element is also a scroll-fade element. It is put
  under observation at page-ready, no visibility event for it ever happens, and the
  stagger timer reveals it 200 milliseconds after page-ready.
\<close>

theorem hero_timer_reveals_watched:
  "1 \<in> set (scrollElements demo_selected) \<and> 1 \<in> set (observed demo_loaded) \<and>
   \<not> revealed demo_world 1 \<and>
   qualifying_in 1 (Advance 200) = 0 \<and> qualifying_in 1 (Fire 1) = 0 \<and>
   revealed_after (run no_match demo_loaded [Advance 200, Fire 1]) 1"
  by code_simp

text \<open>
  C9: the reveal is for good. Along every run an element passes from unrevealed to
  revealed at no more than one step, and an element that is revealed stays revealed
  through the page-ready handlers, through every step and through every run.
\<close>

theorem revealed_for_good:
  "reveal_steps engine e w evs \<le> 1 \<and>
   (revealed w e \<longrightarrow> revealed (dom_content_loaded p w) e) \<and>
   (revealed w e \<and> step engine w ev = Some w' \<longrightarrow> revealed w' e) \<and>
   (revealed w e \<and> run engine w evs = Some w'' \<longrightarrow> revealed w'' e)"
  using reveal_steps_once [of engine e w evs] step_revealed_mono [of engine w ev w' e]
    run_revealed_mono [of engine w evs w'' e]
  by simp

theorem revealed_for_good_witness:
  "revealed demo_seen 2 \<and>
   (\<exists>w'. step no_match demo_seen (Click 6) = Some w' \<and> revealed w' 2) \<and>
   (\<exists>w''. run no_match demo_seen [Advance 200, Fire 1, Click 6] = Some w'' \<and> revealed w'' 2) \<and>
   reveal_steps no_match 2 demo_loaded [Notify [section_enters], Advance 200, Fire 1] = 1"
proof -
  let ?evs = "[Advance 200, Fire 1, Click 6]"
  have h: "revealed demo_seen 2" by code_simp
  have "step no_match demo_seen (Click 6) \<noteq> None" by code_simp
  then obtain w' where s: "step no_match demo_seen (Click 6) = Some w'" by auto
  have "run no_match demo_seen ?evs \<noteq> None" by code_simp
  then obtain w'' where r: "run no_match demo_seen ?evs = Some w''" by auto
  have c: "reveal_steps no_match 2 demo_loaded [Notify [section_enters], Advance 200, Fire 1] = 1"
    by code_simp
  from revealed_for_good [of no_match 2 demo_seen ?evs demo_selected "Click 6" w' w'']
  have "revealed w' 2" and "revealed w'' 2" using h s r by blast+
  with h s r c show ?thesis by blast
qed

section \<open>Smooth scrolling for nav links\<close>

text \<open>
  The path the script was written for: a link to \<open>#about\<close> on a page with an element
  of that id.
\<close>

lemma click_about:
  "defaultPrevented (click_handler no_match 6 demo_loaded) \<and>
   thrown (click_handler no_match 6 demo_loaded) = None \<and>
   scrolls (page (click_handler no_match 6 demo_loaded)) = [(2, ''smooth'', ''start'')]"
  by code_simp

text \<open>
  C5: the specification asks for a smooth scroll whenever an element matches the
  fragment of the link. The link to \<open>#2024\<close> points at the element whose id is \<open>2024\<close>; the click
  handler prevents the default, then \<open>querySelector\<close> throws a SyntaxError, and the
  page is not scrolled.
\<close>

theorem click_numeric_fragment:
  "getAttribute demo_loaded 8 ''href'' = Some ''#2024'' \<and>
   getAttribute demo_loaded 9 ''id'' = Some ''2024'' \<and>
   click_handler engine 8 demo_loaded =
     \<lparr>defaultPrevented = True, thrown = Some SyntaxError, page = demo_loaded\<rparr> \<and>
   scrolls demo_loaded = []"
proof -
  have "scrolls demo_loaded = []" by code_simp
  then show ?thesis
    by (simp add: click_handler_def querySelector_def classify_def starts_ident_def
        is_name_char_def is_name_start_def getAttribute_def demo_loaded_def demo_world_def
        demo_nodes_def)
qed

text \<open>
  C6: the specification asks that no operation throws, whatever the href of an anchor.
  On the link whose href is \<open>#\<close> the click handler prevents the default and then lets a SyntaxError of
  \<open>querySelector\<close> escape, leaving the page as it was.
\<close>

theorem click_bare_hash:
  "getAttribute demo_loaded 7 ''href'' = Some ''#'' \<and>
   click_handler engine 7 demo_loaded =
     \<lparr>defaultPrevented = True, thrown = Some SyntaxError, page = demo_loaded\<rparr>"
  by (simp add: click_handler_def querySelector_def classify_def starts_ident_def
      getAttribute_def demo_loaded_def demo_world_def demo_nodes_def)

end
